theory Spec2Isabelle
  imports Complex_Main
begin

section \<open>Single and double precision arithmetic\<close>

text \<open>
  \<^verbatim>\<open>CuDetectorCascade::initWindowsAndScales\<close> computes window sizes, step sizes and the
  window count in \<^verbatim>\<open>float\<close>. A finite binary floating-point number is a real number, so
  the operations are modelled on \<^typ>\<open>real\<close>: the exact result, rounded to the nearest
  number with \<open>p\<close> significant bits, ties to even (\<open>p = 24\<close> for \<^verbatim>\<open>float\<close>, \<open>p = 53\<close> for
  \<^verbatim>\<open>double\<close>). The exponent range is not modelled (no overflow to infinity, no
  subnormal numbers).

  A member or local variable of type \<^verbatim>\<open>int\<close> holds a value of \<^typ>\<open>int\<close> between
  \<open>- 2 ^ 31\<close> and \<open>2 ^ 31 - 1\<close> (\<open>int32\<close>). The \<^verbatim>\<open>int\<close> expressions that form the scan
  area, the argument of the window count, the array lengths and the offset records are
  evaluated as the compiled code evaluates them, with two's complement wrap-around
  (\<open>wrap32\<close>). The positions \<^verbatim>\<open>x\<close> and \<^verbatim>\<open>y\<close> of the second pass are advanced without
  wrap-around, and the conversion of a floating-point value to \<^verbatim>\<open>int\<close> is the truncation
  also where the result is beyond the range of \<^verbatim>\<open>int\<close>, where C++ leaves it undefined;
  only where the window count becomes the length of an array is a count beyond the range
  told apart, as the negative length that the compiled code arrives at.
\<close>

definition int32 :: "int \<Rightarrow> bool" where
  "int32 n \<longleftrightarrow> - (2 ^ 31) \<le> n \<and> n < 2 ^ 31"

definition wrap32 :: "int \<Rightarrow> int" where
  "wrap32 n = (n + 2 ^ 31) mod 2 ^ 32 - 2 ^ 31"

definition rne :: "real \<Rightarrow> int" where
  \<comment> \<open>round to the nearest integer, ties to even\<close>
  "rne x = (let f = \<lfloor>x\<rfloor>; r = x - of_int f
            in if r < 1/2 then f else if 1/2 < r then f + 1 else if even f then f else f + 1)"

fun ilog2 :: "nat \<Rightarrow> nat" where
  "ilog2 n = (if n < 2 then 0 else Suc (ilog2 (n div 2)))"

declare ilog2.simps [simp del]

definition expo :: "real \<Rightarrow> int" where
  \<comment> \<open>the binary exponent of a positive number: \<open>2 powi expo q \<le> q < 2 powi (expo q + 1)\<close>\<close>
  "expo q = (if 1 \<le> q then int (ilog2 (nat \<lfloor>q\<rfloor>))
             else - int (ilog2 (nat (\<lceil>1 / q\<rceil> - 1))) - 1)"

definition rnd :: "nat \<Rightarrow> real \<Rightarrow> real" where
  \<comment> \<open>round to \<open>p\<close> significant bits\<close>
  "rnd p q = (if q = 0 then 0
              else let k = expo \<bar>q\<bar> - (int p - 1)
                   in of_int (rne (q / 2 powi k)) * 2 powi k)"

definition fl32 :: "real \<Rightarrow> real" where
  "fl32 = rnd 24"

definition fl64 :: "real \<Rightarrow> real" where
  "fl64 = rnd 53"

definition f2i :: "real \<Rightarrow> int" where
  \<comment> \<open>conversion of a floating-point value to \<^verbatim>\<open>int\<close>: truncation towards zero\<close>
  "f2i q = (if 0 \<le> q then \<lfloor>q\<rfloor> else \<lceil>q\<rceil>)"

definition libm_pow :: "int \<Rightarrow> real" where
  \<comment> \<open>\<^verbatim>\<open>pow(1.2, i)\<close>: the literal \<^verbatim>\<open>1.2\<close> is a \<^verbatim>\<open>double\<close>; the library function
      is taken to round correctly\<close>
  "libm_pow i = fl64 (fl64 (6/5) powi i)"


section \<open>Data model\<close>

text \<open>
  \<^verbatim>\<open>scales\<close> is an array of \<^verbatim>\<open>cv::Size\<close> (width, height). \<^verbatim>\<open>windows\<close> holds
  \<^verbatim>\<open>TLD_WINDOW_SIZE = 5\<close> integers per window, \<^verbatim>\<open><x y w h scaleIndex>\<close>, and
  \<^verbatim>\<open>windowOffsets\<close> holds \<^verbatim>\<open>TLD_WINDOW_OFFSET_SIZE = 6\<close> integers per window; each group
  is one record here, the arrays are lists of records in index order.
\<close>

type_synonym Size = "int \<times> int"

record window =
  bb_x :: int
  bb_y :: int
  bb_w :: int
  bb_h :: int
  bb_scaleIndex :: int

record offset =
  o1 :: int
  o2 :: int
  o3 :: int
  o4 :: int
  featureBase :: int
  area :: int

text \<open>
  A pointer member is null, points to a live array, or is invalid: never assigned, or
  left behind by a free that did not reset it.
\<close>

datatype 'a ptr = Null | Invalid | Arr 'a

type_synonym Mat = "nat list"

text \<open>
  The stage filters, the clustering, the detection result, \<^verbatim>\<open>createIndexArray\<close> and the
  CUDA runtime are defined outside this file. A call to one of them is recorded in the
  order it is made.
\<close>

datatype call =
    DetectionResult_init int int
  | DetectionResult_reset
  | DetectionResult_release
  | EnsembleClassifier_init
  | EnsembleClassifier_release
  | EnsembleClassifier_filter int
  | NNClassifier_release
  | NNClassifier_filter int
  | Clustering_release
  | Clustering_clusterConfidentIndices
  | CuVarianceFilter_filter Mat int
  | GpuMat_upload Mat
  | CreateIndexArray int
  | CudaMalloc int
  | CudaMemcpy int
  | CudaFree

datatype error = BadArrayLength | AssertionFailed | InvalidRead | InvalidWrite

text \<open>The members that \<^verbatim>\<open>propagateMembers\<close> writes into the components.\<close>

record members =
  vf_windowOffsets :: "offset list ptr"
  ec_windowOffsets :: "offset list ptr"
  ec_imgWidthStep :: int
  ec_numScales :: int
  ec_scales :: "Size list ptr"
  ec_numFeatures :: int
  ec_numTrees :: int
  nn_windows :: "window list ptr"
  cl_windows :: "window list ptr"
  cl_numWindows :: int
  vf_windows_d :: "window list ptr"

record DetectionResult =
  containsValidData :: bool

record cascade =
  objWidth :: int
  objHeight :: int
  useShift :: bool
  imgHeight :: int
  imgWidth :: int
  shift :: real
  minScale :: int
  maxScale :: int
  minSize :: int
  imgWidthStep :: int
  numTrees :: int
  numFeatures :: int
  initialised :: bool
  windows_d :: "window list ptr"
  numWindows :: int
  numScales :: int
  scales :: "Size list ptr"
  windows :: "window list ptr"
  windowOffsets :: "offset list ptr"
  propagated :: "members option"
  detectionResult :: DetectionResult
  trace :: "call list"

definition calls :: "call list \<Rightarrow> cascade \<Rightarrow> cascade" where
  "calls cs s = s\<lparr>trace := trace s @ cs\<rparr>"


section \<open>Construction\<close>

text \<open>
  The constructor assigns neither \<^verbatim>\<open>numWindows\<close> and \<^verbatim>\<open>numScales\<close>, whose indeterminate
  values are the arguments \<open>nw\<close> and \<open>ns\<close>, nor the three host pointers. \<^verbatim>\<open>shift\<close> is a
  \<^verbatim>\<open>float\<close> member (the class declaration is not part of the sources), so it holds the
  single precision value of the literal \<^verbatim>\<open>0.1\<close>. No member has been propagated to the
  components yet.
\<close>

definition DetectionResult_new :: DetectionResult where
  \<comment> \<open>Modelled from the spec: the constructor of the shared detection state is not in
      the sources; the validity flag is "false until a detection pass completes".\<close>
  "DetectionResult_new = \<lparr>containsValidData = False\<rparr>"

definition CuDetectorCascade :: "int \<Rightarrow> int \<Rightarrow> cascade" where
  "CuDetectorCascade nw ns =
     \<lparr>objWidth = - 1, objHeight = - 1, useShift = True, imgHeight = - 1, imgWidth = - 1,
      shift = fl32 (1/10), minScale = - 10, maxScale = 10, minSize = 25, imgWidthStep = - 1,
      numTrees = 13, numFeatures = 10, initialised = False, windows_d = Null,
      numWindows = nw, numScales = ns, scales = Invalid, windows = Invalid,
      windowOffsets = Invalid, propagated = None, detectionResult = DetectionResult_new,
      trace = []\<rparr>"


section \<open>The window grid\<close>

definition stepSize :: "cascade \<Rightarrow> int \<Rightarrow> int" where
  \<comment> \<open>\<^verbatim>\<open>ssw = max<float>(1, w * shift)\<close> with \<^verbatim>\<open>useShift\<close>, else 1\<close>
  "stepSize s w =
     (if useShift s then f2i (max 1 (fl32 (fl32 (of_int w) * shift s))) else 1)"

definition scaled :: "int \<Rightarrow> int \<Rightarrow> int" where
  \<comment> \<open>\<^verbatim>\<open>float scale = pow(1.2, i); int w = (int)objWidth * scale;\<close>\<close>
  "scaled obj i = f2i (fl32 (fl32 (of_int obj) * fl32 (libm_pow i)))"

definition gridCount :: "int \<Rightarrow> int \<Rightarrow> int \<Rightarrow> real" where
  \<comment> \<open>\<^verbatim>\<open>floor((float)(scanAreaW - w + ssw) / ssw)\<close>\<close>
  "gridCount scanArea w ss =
     of_int \<lfloor>fl32 (fl32 (of_int (wrap32 (wrap32 (scanArea - w) + ss))) / fl32 (of_int ss))\<rfloor>"

text \<open>
  The first loop of \<^verbatim>\<open>initWindowsAndScales\<close>, over the scale exponents: it appends the
  accepted sizes to \<^verbatim>\<open>scales\<close> and adds the window count of each to \<^verbatim>\<open>numWindows\<close>.
  \<^verbatim>\<open>floor\<close> is applied to a \<^verbatim>\<open>float\<close> and, with the overloads of \<^verbatim>\<open><cmath>\<close>, returns a
  \<^verbatim>\<open>float\<close>: the product of the two counts and the sum in \<^verbatim>\<open>numWindows += ...\<close> are formed
  in single precision, and the sum is converted back to \<^verbatim>\<open>int\<close>.
\<close>

fun countLoop :: "cascade \<Rightarrow> int \<Rightarrow> int \<Rightarrow> int list \<Rightarrow> Size list \<times> int \<Rightarrow> Size list \<times> int" where
  "countLoop s scanAreaW scanAreaH [] acc = acc"
| "countLoop s scanAreaW scanAreaH (i # is) (scs, numW) =
     (let w = scaled (objWidth s) i;
          h = scaled (objHeight s) i;
          ssw = stepSize s w;
          ssh = stepSize s h
      in if w < minSize s \<or> h < minSize s \<or> w > scanAreaW \<or> h > scanAreaH
         then countLoop s scanAreaW scanAreaH is (scs, numW)
         else countLoop s scanAreaW scanAreaH is
                (scs @ [(w, h)],
                 f2i (fl32 (fl32 (of_int numW)
                            + fl32 (gridCount scanAreaW w ssw * gridCount scanAreaH h ssh)))))"

text \<open>
  The loops of the second pass. The column loop and the row loop end only when the step
  moves the position past the limit, so they are partial functions: \<open>None\<close> is a loop
  that never ends. Each iteration of the column loop writes one window at
  \<^verbatim>\<open>windowIndex\<close>, here the end of the list: \<^verbatim>\<open>tldCopyBoundaryToArray\<close> stores \<^verbatim>\<open>x\<close>,
  \<^verbatim>\<open>y\<close>, \<^verbatim>\<open>w\<close>, \<^verbatim>\<open>h\<close> (the format \<^verbatim>\<open><x y w h scaleIndex>\<close> of the comment above the
  function) and \<^verbatim>\<open>bb[4] = scaleIndex\<close> completes the record.
\<close>

partial_function (option) colLoop ::
  "int \<Rightarrow> int \<Rightarrow> int \<Rightarrow> int \<Rightarrow> int \<Rightarrow> int \<Rightarrow> int \<Rightarrow> window list \<Rightarrow> window list option" where
  "colLoop limX ssw y w h scaleIndex x ws =
     (if x + w \<le> limX
      then colLoop limX ssw y w h scaleIndex (x + ssw)
             (ws @ [\<lparr>bb_x = x, bb_y = y, bb_w = w, bb_h = h, bb_scaleIndex = scaleIndex\<rparr>])
      else Some ws)"

partial_function (option) rowLoop ::
  "int \<Rightarrow> int \<Rightarrow> int \<Rightarrow> int \<Rightarrow> int \<Rightarrow> int \<Rightarrow> int \<Rightarrow> int \<Rightarrow> int \<Rightarrow> window list \<Rightarrow> window list option" where
  "rowLoop limX limY ssw ssh scanAreaX w h scaleIndex y ws =
     (if y + h \<le> limY
      then Option.bind (colLoop limX ssw y w h scaleIndex scanAreaX ws)
             (rowLoop limX limY ssw ssh scanAreaX w h scaleIndex (y + ssh))
      else Some ws)"

fun genLoop ::
  "cascade \<Rightarrow> int \<Rightarrow> int \<Rightarrow> int \<Rightarrow> int \<Rightarrow> Size list \<Rightarrow> int \<Rightarrow> window list \<Rightarrow> window list option" where
  "genLoop s scanAreaX scanAreaY scanAreaW scanAreaH [] scaleIndex ws = Some ws"
| "genLoop s scanAreaX scanAreaY scanAreaW scanAreaH ((w, h) # rest) scaleIndex ws =
     (let ssw = stepSize s w;
          ssh = stepSize s h
      in Option.bind
           (rowLoop (scanAreaX + scanAreaW) (scanAreaY + scanAreaH) ssw ssh scanAreaX
              w h scaleIndex scanAreaY ws)
           (genLoop s scanAreaX scanAreaY scanAreaW scanAreaH rest (scaleIndex + 1)))"

text \<open>
  \<^verbatim>\<open>int scanAreaW = imgWidth - 1;\<close> wraps around when \<^verbatim>\<open>imgWidth\<close> is the least
  \<^verbatim>\<open>int\<close>. In the second pass \<^verbatim>\<open>scanAreaW\<close> occurs only in the limit
  \<^verbatim>\<open>scanAreaX + scanAreaW\<close>, which is \<^verbatim>\<open>imgWidth\<close> again whether or not the difference
  wrapped around (lemma \<open>scan_limit\<close>), so \<open>genPass\<close> forms the limit from the difference
  as it is.
\<close>

definition countPass :: "cascade \<Rightarrow> Size list \<times> int" where
  "countPass s =
     countLoop s (wrap32 (imgWidth s - 1)) (wrap32 (imgHeight s - 1))
       [minScale s..maxScale s] ([], 0)"

definition genPass :: "cascade \<Rightarrow> Size list \<Rightarrow> window list option" where
  "genPass s scs = genLoop s 1 1 (imgWidth s - 1) (imgHeight s - 1) scs 0 []"

text \<open>
  \<^verbatim>\<open>new Size[maxScale - minScale + 1]\<close> throws on a negative length, and so does
  \<^verbatim>\<open>new int[TLD_WINDOW_SIZE * numWindows]\<close>, whose length is an \<^verbatim>\<open>int\<close> product of 5,
  the number of values of a record, and the count. A count that is beyond the range of
  \<^verbatim>\<open>int\<close> is stored by the conversion instruction as the least \<^verbatim>\<open>int\<close>, and five times
  that is the least \<^verbatim>\<open>int\<close> again: a negative length. The array \<^verbatim>\<open>windows\<close> is allocated
  before the second pass writes \<^verbatim>\<open>windowIndex\<close> records, and the function ends with
  \<^verbatim>\<open>assert(windowIndex == numWindows)\<close>: a second pass that writes fewer or more records
  than were counted is the error \<open>AssertionFailed\<close>; one that writes the counted number
  into an array whose length wrapped around to less is the error \<open>InvalidWrite\<close>. The
  device buffer is a copy of the array, \<^verbatim>\<open>sizeof(int)\<close> is taken as 4.
\<close>

definition initWindowsAndScales :: "cascade \<Rightarrow> (error + cascade) option" where
  "initWindowsAndScales s =
     (if wrap32 (wrap32 (maxScale s - minScale s) + 1) < 0 then Some (Inl BadArrayLength)
      else
        let (scs, numW) = countPass s;
            len = wrap32 (5 * numW)
        in if int32 numW \<and> 0 \<le> len
           then case genPass s scs of
                  None \<Rightarrow> None
                | Some ws \<Rightarrow>
                    if int (length ws) \<noteq> numW then Some (Inl AssertionFailed)
                    else if len < 5 * numW then Some (Inl InvalidWrite)
                    else Some (Inr (calls [CudaMalloc (len * 4), CudaMemcpy (len * 4)]
                                      (s\<lparr>scales := Arr scs, numWindows := numW,
                                         numScales := int (length scs), windows := Arr ws,
                                         windows_d := Arr ws\<rparr>)))
           else Some (Inl BadArrayLength))"


section \<open>The offset table\<close>

definition sub2idx :: "int \<Rightarrow> int \<Rightarrow> int \<Rightarrow> int" where
  \<comment> \<open>Modelled from the spec: the macro \<^verbatim>\<open>sub2idx\<close> is defined in \<^verbatim>\<open>TLDUtil.h\<close>, which
      is not in the sources; the offsets are "flattened row-major offsets into an
      integral-image buffer". The value is stored in an \<^verbatim>\<open>int\<close>.\<close>
  "sub2idx x y widthstep = wrap32 (x + wrap32 (y * widthstep))"

definition windowOffset :: "cascade \<Rightarrow> window \<Rightarrow> offset" where
  "windowOffset s win =
     (let x1 = wrap32 (bb_x win - 1);
          y1 = wrap32 (bb_y win - 1);
          x2 = wrap32 (wrap32 (bb_x win + bb_w win) - 1);
          y2 = wrap32 (wrap32 (bb_y win + bb_h win) - 1)
      in \<lparr>o1 = sub2idx x1 y1 (imgWidthStep s),
          o2 = sub2idx x1 y2 (imgWidthStep s),
          o3 = sub2idx x2 y1 (imgWidthStep s),
          o4 = sub2idx x2 y2 (imgWidthStep s),
          featureBase =
            wrap32 (wrap32 (wrap32 (bb_scaleIndex win * 2) * numFeatures s) * numTrees s),
          area = wrap32 (bb_w win * bb_h win)\<rparr>)"

text \<open>
  \<^verbatim>\<open>new int[TLD_WINDOW_OFFSET_SIZE * numWindows]\<close> has an \<^verbatim>\<open>int\<close> product of 6, the
  number of values of an offset record, and \<^verbatim>\<open>numWindows\<close> as its length. The loop
  reads the windows \<open>0, \<dots>, numWindows - 1\<close> and writes one record for each. A read
  through a pointer that is not live, or beyond the array of windows, is the error
  \<open>InvalidRead\<close>; a write beyond the new array, whose length may have wrapped around, is
  the error \<open>InvalidWrite\<close>; the error is that of the first iteration that fails, which
  reads before it writes. The six values of a record are \<^verbatim>\<open>int\<close> expressions over the
  five values of the window, stored in an \<^verbatim>\<open>int\<close> array.
\<close>

definition initWindowOffsets :: "cascade \<Rightarrow> error + cascade" where
  "initWindowOffsets s =
     (let len = wrap32 (6 * numWindows s)
      in if len < 0 then Inl BadArrayLength
         else if numWindows s \<le> 0 then Inr (s\<lparr>windowOffsets := Arr []\<rparr>)
         else case windows s of
                Arr ws \<Rightarrow>
                  if int (length ws) < numWindows s \<and> int (length ws) \<le> len div 6
                  then Inl InvalidRead
                  else if len div 6 < numWindows s then Inl InvalidWrite
                  else Inr (s\<lparr>windowOffsets :=
                               Arr (map (\<lambda>i. windowOffset s (ws ! i))
                                      [0..<nat (numWindows s)])\<rparr>)
              | _ \<Rightarrow> Inl InvalidRead)"


section \<open>Life cycle\<close>

definition propagateMembers :: "cascade \<Rightarrow> cascade" where
  "propagateMembers s =
     (calls [DetectionResult_init (numWindows s) (numTrees s)] s)
       \<lparr>propagated := Some
          \<lparr>vf_windowOffsets = windowOffsets s, ec_windowOffsets = windowOffsets s,
           ec_imgWidthStep = imgWidthStep s, ec_numScales = numScales s,
           ec_scales = scales s, ec_numFeatures = numFeatures s, ec_numTrees = numTrees s,
           nn_windows = windows s, cl_windows = windows s, cl_numWindows = numWindows s,
           vf_windows_d = windows_d s\<rparr>\<rparr>"

definition unset :: "cascade \<Rightarrow> bool" where
  "unset s \<longleftrightarrow> imgWidth s = - 1 \<or> imgHeight s = - 1 \<or> imgWidthStep s = - 1
              \<or> objWidth s = - 1 \<or> objHeight s = - 1"

text \<open>
  The body of the test in \<^verbatim>\<open>init\<close> holds only a comment, so both branches continue
  with the state as it is.
\<close>

definition init :: "cascade \<Rightarrow> (error + cascade) option" where
  "init s =
     (let s0 = (if unset s then s else s)
      in case initWindowsAndScales s0 of
           None \<Rightarrow> None
         | Some (Inl e) \<Rightarrow> Some (Inl e)
         | Some (Inr s1) \<Rightarrow>
             (case initWindowOffsets s1 of
                Inl e \<Rightarrow> Some (Inl e)
              | Inr s2 \<Rightarrow>
                  Some (Inr ((calls [EnsembleClassifier_init] (propagateMembers s2))
                               \<lparr>initialised := True\<rparr>))))"

text \<open>
  \<^verbatim>\<open>release\<close> frees the device buffer when \<^verbatim>\<open>windows_d\<close> is not null and does not
  reset the pointer.
\<close>

definition release :: "cascade \<Rightarrow> cascade" where
  "release s =
     (if \<not> initialised s then s
      else
        (calls ([EnsembleClassifier_release, NNClassifier_release, Clustering_release]
                @ (if windows_d s \<noteq> Null then [CudaFree] else [])
                @ [DetectionResult_release]) s)
          \<lparr>initialised := False, numWindows := 0, numScales := 0, scales := Null,
           windows := Null, windowOffsets := Null,
           windows_d := (if windows_d s \<noteq> Null then Invalid else Null),
           objWidth := - 1, objHeight := - 1\<rparr>)"

text \<open>
  \<^verbatim>\<open>detect\<close>: the loop over the windows that called the ensemble classifier and the
  nearest neighbour classifier is inside a comment; what runs is the reset, the variance
  filter on the full index array, and the clustering. The count that the variance filter
  reduces is a local variable which is only printed. The methods of the detection result
  are recorded as calls; the member that \<^verbatim>\<open>detect\<close> itself writes is the validity flag.
\<close>

definition detect :: "Mat \<Rightarrow> cascade \<Rightarrow> cascade" where
  "detect img s =
     (if \<not> initialised s then s
      else
        (calls [DetectionResult_reset, GpuMat_upload img, CreateIndexArray (numWindows s),
                CuVarianceFilter_filter img (numWindows s),
                Clustering_clusterConfidentIndices] s)
          \<lparr>detectionResult := (detectionResult s)\<lparr>containsValidData := True\<rparr>\<rparr>)"


section \<open>Notions used in the statements\<close>

text \<open>
  \<open>gridN limX w x ss\<close> is the number of positions \<open>x, x + ss, x + 2 * ss, \<dots>\<close> at which a
  window of width \<open>w\<close> ends at or before \<open>limX\<close>, in integer arithmetic; \<open>gridSize\<close> is
  the number of positions of one scale, rows times columns.
\<close>

definition gridN :: "int \<Rightarrow> int \<Rightarrow> int \<Rightarrow> int \<Rightarrow> int" where
  "gridN limX w x ss = (if x + w \<le> limX then (limX - w - x) div ss + 1 else 0)"

definition inGrid :: "int \<Rightarrow> int \<Rightarrow> int \<Rightarrow> int \<Rightarrow> int \<Rightarrow> int \<Rightarrow> int \<Rightarrow> window \<Rightarrow> bool" where
  "inGrid x0 y0 limX limY w h si win \<longleftrightarrow>
     x0 \<le> bb_x win \<and> bb_x win + w \<le> limX \<and> y0 \<le> bb_y win \<and> bb_y win + h \<le> limY
     \<and> bb_w win = w \<and> bb_h win = h \<and> bb_scaleIndex win = si"

text \<open>
  The counting loop, taken apart: the exponents it accepts, the sizes it stores for them,
  and the update of \<^verbatim>\<open>numWindows\<close> for one stored size.
\<close>

definition accepted :: "cascade \<Rightarrow> int \<Rightarrow> int \<Rightarrow> int \<Rightarrow> bool" where
  "accepted s scanAreaW scanAreaH i \<longleftrightarrow>
     \<not> (scaled (objWidth s) i < minSize s \<or> scaled (objHeight s) i < minSize s
        \<or> scaled (objWidth s) i > scanAreaW \<or> scaled (objHeight s) i > scanAreaH)"

definition accScales :: "cascade \<Rightarrow> int \<Rightarrow> int \<Rightarrow> int list \<Rightarrow> Size list" where
  "accScales s scanAreaW scanAreaH is =
     map (\<lambda>i. (scaled (objWidth s) i, scaled (objHeight s) i))
       (filter (accepted s scanAreaW scanAreaH) is)"

definition countStep :: "cascade \<Rightarrow> int \<Rightarrow> int \<Rightarrow> int \<Rightarrow> Size \<Rightarrow> int" where
  "countStep s scanAreaW scanAreaH numW sz =
     f2i (fl32 (fl32 (of_int numW)
                + fl32 (gridCount scanAreaW (fst sz) (stepSize s (fst sz))
                        * gridCount scanAreaH (snd sz) (stepSize s (snd sz)))))"

definition gridSize :: "cascade \<Rightarrow> int \<Rightarrow> int \<Rightarrow> int \<Rightarrow> int \<Rightarrow> Size \<Rightarrow> int" where
  "gridSize s scanAreaX scanAreaY scanAreaW scanAreaH sz =
     gridN (scanAreaY + scanAreaH) (snd sz) scanAreaY (stepSize s (snd sz))
     * gridN (scanAreaX + scanAreaW) (fst sz) scanAreaX (stepSize s (fst sz))"

text \<open>
  The bounds under which the single precision operations of the counting pass are exact
  (as long as the count itself stays below \<open>2 ^ 24\<close>): the image sides are positive and
  below \<open>2 ^ 24\<close>, the minimum size is not negative, and the shift ratio is at most 1.
\<close>

definition floatExact :: "cascade \<Rightarrow> bool" where
  "floatExact s \<longleftrightarrow> 0 < imgWidth s \<and> imgWidth s < 2 ^ 24
                    \<and> 0 < imgHeight s \<and> imgHeight s < 2 ^ 24 \<and> 0 \<le> minSize s
                    \<and> (useShift s \<longrightarrow> shift s \<le> 1)"

text \<open>
  A small configuration: the default configuration with a template of 25 by 25 pixels in
  an image of 31 by 31 pixels, and the scale exponents \<open>-1\<close> to \<open>1\<close>. Exponent \<open>-1\<close> gives
  the size 20, which is rejected; exponent 0 gives 25, with step 2 and three by three
  windows; exponent 1 gives 30, with step 3 and a single window.
\<close>

definition demo :: cascade where
  "demo = (CuDetectorCascade 0 0)\<lparr>objWidth := 25, objHeight := 25, imgWidth := 31,
             imgHeight := 31, imgWidthStep := 31, minScale := - 1, maxScale := 1\<rparr>"


definition demoWindows :: "window list" where
  "demoWindows =
     [\<lparr>bb_x = 1, bb_y = 1, bb_w = 25, bb_h = 25, bb_scaleIndex = 0\<rparr>,
      \<lparr>bb_x = 3, bb_y = 1, bb_w = 25, bb_h = 25, bb_scaleIndex = 0\<rparr>,
      \<lparr>bb_x = 5, bb_y = 1, bb_w = 25, bb_h = 25, bb_scaleIndex = 0\<rparr>,
      \<lparr>bb_x = 1, bb_y = 3, bb_w = 25, bb_h = 25, bb_scaleIndex = 0\<rparr>,
      \<lparr>bb_x = 3, bb_y = 3, bb_w = 25, bb_h = 25, bb_scaleIndex = 0\<rparr>,
      \<lparr>bb_x = 5, bb_y = 3, bb_w = 25, bb_h = 25, bb_scaleIndex = 0\<rparr>,
      \<lparr>bb_x = 1, bb_y = 5, bb_w = 25, bb_h = 25, bb_scaleIndex = 0\<rparr>,
      \<lparr>bb_x = 3, bb_y = 5, bb_w = 25, bb_h = 25, bb_scaleIndex = 0\<rparr>,
      \<lparr>bb_x = 5, bb_y = 5, bb_w = 25, bb_h = 25, bb_scaleIndex = 0\<rparr>,
      \<lparr>bb_x = 1, bb_y = 1, bb_w = 30, bb_h = 30, bb_scaleIndex = 1\<rparr>]"

definition demoOffsets :: "offset list" where
  "demoOffsets =
     [\<lparr>o1 = 0, o2 = 775, o3 = 25, o4 = 800, featureBase = 0, area = 625\<rparr>,
      \<lparr>o1 = 2, o2 = 777, o3 = 27, o4 = 802, featureBase = 0, area = 625\<rparr>,
      \<lparr>o1 = 4, o2 = 779, o3 = 29, o4 = 804, featureBase = 0, area = 625\<rparr>,
      \<lparr>o1 = 62, o2 = 837, o3 = 87, o4 = 862, featureBase = 0, area = 625\<rparr>,
      \<lparr>o1 = 64, o2 = 839, o3 = 89, o4 = 864, featureBase = 0, area = 625\<rparr>,
      \<lparr>o1 = 66, o2 = 841, o3 = 91, o4 = 866, featureBase = 0, area = 625\<rparr>,
      \<lparr>o1 = 124, o2 = 899, o3 = 149, o4 = 924, featureBase = 0, area = 625\<rparr>,
      \<lparr>o1 = 126, o2 = 901, o3 = 151, o4 = 926, featureBase = 0, area = 625\<rparr>,
      \<lparr>o1 = 128, o2 = 903, o3 = 153, o4 = 928, featureBase = 0, area = 625\<rparr>,
      \<lparr>o1 = 0, o2 = 930, o3 = 30, o4 = 960, featureBase = 260, area = 900\<rparr>]"

text \<open>The state in which \<^verbatim>\<open>init\<close> leaves \<open>demo\<close> (lemma \<open>demo_init\<close>).\<close>

definition demoInit :: cascade where
  "demoInit = demo
     \<lparr>initialised := True, windows_d := Arr demoWindows, numWindows := 10, numScales := 2,
      scales := Arr [(25, 25), (30, 30)], windows := Arr demoWindows,
      windowOffsets := Arr demoOffsets,
      propagated := Some
        \<lparr>vf_windowOffsets = Arr demoOffsets, ec_windowOffsets = Arr demoOffsets,
         ec_imgWidthStep = 31, ec_numScales = 2, ec_scales = Arr [(25, 25), (30, 30)],
         ec_numFeatures = 10, ec_numTrees = 13, nn_windows = Arr demoWindows,
         cl_windows = Arr demoWindows, cl_numWindows = 10, vf_windows_d = Arr demoWindows\<rparr>,
      trace := [CudaMalloc 200, CudaMemcpy 200, DetectionResult_init 10 13,
                EnsembleClassifier_init]\<rparr>"

text \<open>
  The state in which \<^verbatim>\<open>init\<close> leaves a cascade that was only constructed, with all five
  dimensions unset.
\<close>

definition defaultInit :: cascade where
  "defaultInit = (CuDetectorCascade 0 0)
     \<lparr>initialised := True, windows_d := Arr [], numWindows := 0, numScales := 0,
      scales := Arr [], windows := Arr [], windowOffsets := Arr [],
      propagated := Some
        \<lparr>vf_windowOffsets = Arr [], ec_windowOffsets = Arr [], ec_imgWidthStep = - 1,
         ec_numScales = 0, ec_scales = Arr [], ec_numFeatures = 10, ec_numTrees = 13,
         nn_windows = Arr [], cl_windows = Arr [], cl_numWindows = 0, vf_windows_d = Arr []\<rparr>,
      trace := [CudaMalloc 0, CudaMemcpy 0, DetectionResult_init 0 13,
                EnsembleClassifier_init]\<rparr>"

text \<open>
  The example of the specification: template 24 by 24, image 100 by 100 with stride 100,
  scale exponents \<open>-1\<close> to \<open>1\<close>; the shift ratio 0.1 and the minimum size 25 are the
  defaults.
\<close>

definition example5 :: cascade where
  "example5 = (CuDetectorCascade 0 0)\<lparr>objWidth := 24, objHeight := 24, imgWidth := 100,
                 imgHeight := 100, imgWidthStep := 100, minScale := - 1, maxScale := 1\<rparr>"

definition scalesOf :: "(error + cascade) option \<Rightarrow> (Size list ptr \<times> int) option" where
  "scalesOf r = (case r of Some (Inr s') \<Rightarrow> Some (scales s', numScales s') | _ \<Rightarrow> None)"

text \<open>The calls that test one window in the ensemble or the nearest neighbour stage.\<close>

definition classifierTest :: "call \<Rightarrow> bool" where
  "classifierTest c = (case c of EnsembleClassifier_filter i \<Rightarrow> True
                       | NNClassifier_filter i \<Rightarrow> True | _ \<Rightarrow> False)"

text \<open>
  A configuration with more than \<open>2 ^ 24\<close> windows: template 25 by 25, image 4122 by 4122,
  the step fixed to one pixel, the scale exponent 0. There are 4097 positions in each
  direction.
\<close>

definition big :: cascade where
  "big = (CuDetectorCascade 0 0)\<lparr>objWidth := 25, objHeight := 25, useShift := False,
            imgWidth := 4122, imgHeight := 4122, imgWidthStep := 4122,
            minScale := 0, maxScale := 0\<rparr>"





section \<open>Wrap-around\<close>

lemma wrap32_id: "int32 n \<Longrightarrow> wrap32 n = n"
  by (simp add: wrap32_def int32_def)

lemma int32_wrap32: "int32 (wrap32 n)"
proof -
  have "0 \<le> (n + 2 ^ 31) mod 2 ^ 32" "(n + 2 ^ 31) mod 2 ^ 32 < (2 ^ 32 :: int)"
    by simp_all
  then show ?thesis by (simp add: wrap32_def int32_def)
qed

lemma wrap32_cong: "a mod 2 ^ 32 = b mod 2 ^ 32 \<Longrightarrow> wrap32 a = wrap32 b"
  unfolding wrap32_def by (simp add: mod_add_cong)

lemma wrap32_mod: "wrap32 a mod 2 ^ 32 = a mod 2 ^ 32"
proof -
  have "wrap32 a mod 2 ^ 32 = ((a + 2 ^ 31) mod 2 ^ 32 - 2 ^ 31) mod 2 ^ 32"
    by (simp add: wrap32_def)
  also have "\<dots> = (a + 2 ^ 31 - 2 ^ 31) mod 2 ^ 32"
    by (rule mod_diff_left_eq)
  finally show ?thesis by simp
qed


lemma wrap32_add_left: "wrap32 (wrap32 a + b) = wrap32 (a + b)"
proof (rule wrap32_cong)
  have "(wrap32 a + b) mod 2 ^ 32 = (wrap32 a mod 2 ^ 32 + b) mod 2 ^ 32"
    by (simp add: mod_add_left_eq)
  also have "\<dots> = (a mod 2 ^ 32 + b) mod 2 ^ 32"
    by (simp only: wrap32_mod)
  also have "\<dots> = (a + b) mod 2 ^ 32"
    by (simp add: mod_add_left_eq)
  finally show "(wrap32 a + b) mod 2 ^ 32 = (a + b) mod 2 ^ 32" .
qed

text \<open>
  The limit \<^verbatim>\<open>scanAreaX + scanAreaW\<close> of the second pass, evaluated with wrap-around, is
  the image side for every value that an \<^verbatim>\<open>int\<close> can hold.
\<close>

lemma scan_limit: "int32 v \<Longrightarrow> wrap32 (1 + wrap32 (v - 1)) = 1 + (v - 1)"
proof -
  assume v: "int32 v"
  have "wrap32 (1 + wrap32 (v - 1)) = wrap32 (wrap32 (v - 1) + 1)" by (simp add: add.commute)
  also have "\<dots> = wrap32 (v - 1 + 1)" by (rule wrap32_add_left)
  also have "\<dots> = v" using v by (simp add: wrap32_id)
  finally show ?thesis by simp
qed


section \<open>Rounding: bounds and exact cases\<close>

lemma ilog2_bounds: "0 < n \<Longrightarrow> 2 ^ ilog2 n \<le> n \<and> n < 2 * 2 ^ ilog2 n"
proof (induction n rule: ilog2.induct)
  case (1 n)
  show ?case
  proof (cases "n < 2")
    case True
    with "1.prems" have "n = 1" by simp
    then show ?thesis by (simp add: ilog2.simps)
  next
    case False
    then have pos: "0 < n div 2" by simp
    from "1.IH"[OF False pos]
    have IH: "2 ^ ilog2 (n div 2) \<le> n div 2" "n div 2 < 2 * 2 ^ ilog2 (n div 2)"
      by auto
    have e: "ilog2 n = Suc (ilog2 (n div 2))"
      using False by (subst ilog2.simps) simp
    show ?thesis unfolding e using IH by simp arith
  qed
qed

lemma rne_lower: "\<lfloor>x\<rfloor> \<le> rne x"
  by (simp add: rne_def Let_def)

lemma rne_upper: "rne x \<le> \<lceil>x\<rceil>"
  unfolding rne_def Let_def by (auto simp: ceiling_def) linarith+

lemma rne_err: "\<bar>of_int (rne x) - x\<bar> \<le> 1/2"
  unfolding rne_def Let_def by auto

lemma rne_of_int [simp]: "rne (of_int n) = n"
  by (simp add: rne_def)

lemma rne_minus: "rne (- x) = - rne x"
proof (cases "x \<in> \<int>")
  case True
  then obtain n where "x = of_int n" by (auto elim: Ints_cases)
  then show ?thesis by (simp flip: of_int_minus)
next
  case False
  then have ne: "x \<noteq> of_int \<lfloor>x\<rfloor>" by (metis Ints_of_int)
  then have f: "\<lfloor>- x\<rfloor> = - \<lfloor>x\<rfloor> - 1"
    by (simp add: floor_minus ceiling_altdef)
  show ?thesis
    unfolding rne_def Let_def f using ne by auto
qed

lemma powi_nat: "k \<le> 0 \<Longrightarrow> (2::real) powi k = 1 / 2 ^ nat (- k)"
  by (cases "k = 0") (simp_all add: power_int_def inverse_eq_divide power_one_over)

lemma expo_bounds:
  assumes "0 < q"
  shows "2 powi (expo q) \<le> q \<and> q < 2 powi (expo q + 1)"
proof (cases "1 \<le> q")
  case True
  define n where "n = nat \<lfloor>q\<rfloor>"
  have npos: "0 < n" using True by (simp add: n_def)
  have rn: "real n = of_int \<lfloor>q\<rfloor>"
    unfolding n_def by (rule of_nat_nat) (use True in simp)
  have nq: "real n \<le> q" "q < real n + 1"
    unfolding rn by linarith+
  from ilog2_bounds[OF npos]
  have b: "2 ^ ilog2 n \<le> n" "n + 1 \<le> 2 * 2 ^ ilog2 n" by auto
  have e: "expo q = int (ilog2 n)" using True by (simp add: expo_def n_def)
  have b1: "(2::real) ^ ilog2 n \<le> real n"
    using of_nat_mono[OF b(1), where 'a=real] by simp
  have b2: "real n + 1 \<le> 2 * 2 ^ ilog2 n"
    using of_nat_mono[OF b(2), where 'a=real] by simp
  have p1: "(2::real) powi int (ilog2 n) = 2 ^ ilog2 n" by simp
  have p2: "(2::real) powi (int (ilog2 n) + 1) = 2 * 2 ^ ilog2 n"
    by (simp add: power_int_add)
  show ?thesis unfolding e p1 p2 using b1 b2 nq by linarith
next
  case False
  define m where "m = nat (\<lceil>1 / q\<rceil> - 1)"
  have r: "1 < 1 / q" using assms False by simp
  then have c2: "2 \<le> \<lceil>1 / q\<rceil>" by linarith
  have mpos: "0 < m" unfolding m_def using c2 by linarith
  have rm: "real m = of_int (\<lceil>1 / q\<rceil> - 1)"
    unfolding m_def by (rule of_nat_nat) (use c2 in linarith)
  have mr: "real m < 1 / q" "1 / q \<le> real m + 1"
    unfolding rm by linarith+
  from ilog2_bounds[OF mpos]
  have b: "2 ^ ilog2 m \<le> m" "m + 1 \<le> 2 * 2 ^ ilog2 m" by auto
  have e: "expo q = - int (ilog2 m) - 1" using False by (simp add: expo_def m_def)
  have b1: "(2::real) ^ ilog2 m \<le> real m"
    using of_nat_mono[OF b(1), where 'a=real] by simp
  have b2: "real m + 1 \<le> 2 * 2 ^ ilog2 m"
    using of_nat_mono[OF b(2), where 'a=real] by simp
  have lo: "1 / (2 * 2 ^ ilog2 m) \<le> q"
  proof -
    have "1 / q \<le> 2 * 2 ^ ilog2 m" using mr(2) b2 by linarith
    then show ?thesis using assms by (simp add: field_simps)
  qed
  have hi: "q < 1 / 2 ^ ilog2 m"
  proof -
    have "2 ^ ilog2 m < 1 / q" using mr(1) b1 by linarith
    then show ?thesis using assms by (simp add: field_simps)
  qed
  have p1: "(2::real) powi (- int (ilog2 m) - 1) = 1 / (2 * 2 ^ ilog2 m)"
    by (simp add: powi_nat nat_add_distrib)
  have p2: "(2::real) powi (- int (ilog2 m) - 1 + 1) = 1 / 2 ^ ilog2 m"
    by (simp add: powi_nat)
  show ?thesis unfolding e p1 p2 using lo hi by simp
qed

lemma powi_less_iff: "(2::real) powi m < 2 powi n \<longleftrightarrow> m < n"
proof
  assume l: "(2::real) powi m < 2 powi n"
  show "m < n"
  proof (rule ccontr)
    assume "\<not> m < n"
    then have "n \<le> m" by simp
    then have "(2::real) powi n \<le> 2 powi m" by (intro power_int_increasing) simp_all
    with l show False by simp
  qed
next
  assume "m < n"
  then show "(2::real) powi m < 2 powi n" by (intro power_int_strict_increasing) simp_all
qed

lemma of_int_less_power2: "n < 2 ^ p \<Longrightarrow> real_of_int n < 2 ^ p"
proof -
  assume "n < 2 ^ p"
  then have "real_of_int n < real_of_int (2 ^ p)" by (simp only: of_int_less_iff)
  then show ?thesis by simp
qed

lemma rnd_pos:
  "0 < q \<Longrightarrow> rnd p q = of_int (rne (q / 2 powi (expo q - (int p - 1)))) * 2 powi (expo q - (int p - 1))"
  by (simp add: rnd_def Let_def)

lemma rnd_zero [simp]: "rnd p 0 = 0"
  by (simp add: rnd_def)

lemma rnd_minus: "rnd p (- q) = - rnd p q"
  by (simp add: rnd_def Let_def rne_minus)

lemma rne_nonneg: "0 \<le> x \<Longrightarrow> 0 \<le> rne x"
proof -
  assume "0 \<le> x"
  then have "0 \<le> \<lfloor>x\<rfloor>" by simp
  with rne_lower[of x] show ?thesis by linarith
qed

lemma rnd_nonneg: "0 \<le> q \<Longrightarrow> 0 \<le> rnd p q"
  by (cases "q = 0") (simp_all add: rnd_pos rne_nonneg)

lemma rnd_nonpos: "q \<le> 0 \<Longrightarrow> rnd p q \<le> 0"
  using rnd_nonneg[of "- q" p] by (simp add: rnd_minus)

lemma expo_less:
  assumes "0 < q" "q < 2 ^ p"
  shows "expo q - (int p - 1) \<le> 0"
proof -
  have "2 powi (expo q) < (2::real) powi (int p)"
    using expo_bounds[OF assms(1)] assms(2) by simp
  then have "expo q < int p"
    by (simp only: powi_less_iff)
  then show ?thesis by simp
qed

lemma rnd_scaled:
  assumes "0 < q" "q < 2 ^ p"
  obtains M :: int where "0 < M" "rnd p q = of_int (rne (q * of_int M)) / of_int M"
proof -
  define k where "k = expo q - (int p - 1)"
  have k: "k \<le> 0" unfolding k_def by (rule expo_less[OF assms])
  define M :: int where "M = 2 ^ nat (- k)"
  have M: "0 < M" by (simp add: M_def)
  have pk: "(2::real) powi k = 1 / of_int M"
    by (simp add: M_def powi_nat[OF k])
  have "rnd p q = of_int (rne (q * of_int M)) / of_int M"
    unfolding rnd_pos[OF assms(1)] k_def[symmetric] pk by simp
  with M show ?thesis by (rule that)
qed

lemma rnd_ge_int:
  assumes "0 < q" "q < 2 ^ p" "of_int n \<le> q"
  shows "of_int n \<le> rnd p q"
proof -
  obtain M :: int where M: "0 < M" "rnd p q = of_int (rne (q * of_int M)) / of_int M"
    by (rule rnd_scaled[OF assms(1,2)])
  have "of_int (n * M) \<le> q * of_int M" using assms(3) M(1) by simp
  then have "n * M \<le> \<lfloor>q * of_int M\<rfloor>" by (simp add: le_floor_iff)
  also have "\<dots> \<le> rne (q * of_int M)" by (rule rne_lower)
  finally have "real_of_int (n * M) \<le> of_int (rne (q * of_int M))" by linarith
  then show ?thesis unfolding M(2) using M(1) by (simp add: field_simps)
qed

lemma rnd_le_int:
  assumes "0 < q" "q \<le> of_int n" "n < 2 ^ p"
  shows "rnd p q \<le> of_int n"
proof -
  have "real_of_int n < 2 ^ p" using assms(3) by (rule of_int_less_power2)
  with assms(2) have lt: "q < 2 ^ p" by linarith
  obtain M :: int where M: "0 < M" "rnd p q = of_int (rne (q * of_int M)) / of_int M"
    by (rule rnd_scaled[OF assms(1) lt])
  have "q * of_int M \<le> of_int (n * M)" using assms(2) M(1) by simp
  then have "\<lceil>q * of_int M\<rceil> \<le> n * M" by (simp add: ceiling_le_iff)
  with rne_upper[of "q * of_int M"] have "rne (q * of_int M) \<le> n * M" by linarith
  then have "real_of_int (rne (q * of_int M)) \<le> of_int (n * M)" by linarith
  then show ?thesis unfolding M(2) using M(1) by (simp add: field_simps)
qed

lemma rnd_int_exact:
  assumes "\<bar>n\<bar> < 2 ^ p"
  shows "rnd p (of_int n) = of_int n"
proof -
  have pos: "rnd p (of_int m) = of_int m" if "0 < m" "m < 2 ^ p" for m :: int
  proof -
    have "rnd p (of_int m) \<le> of_int m"
      by (rule rnd_le_int) (use that in simp_all)
    moreover have "of_int m \<le> rnd p (of_int m)"
    proof -
      have "real_of_int m < 2 ^ p" using that(2) by (rule of_int_less_power2)
      then show ?thesis by (intro rnd_ge_int) (use that in simp_all)
    qed
    ultimately show ?thesis by simp
  qed
  consider "n = 0" | "0 < n" | "n < 0" by linarith
  then show ?thesis
  proof cases
    case 1 then show ?thesis by simp
  next
    case 2 then show ?thesis using pos[of n] assms by simp
  next
    case 3
    then have "rnd p (of_int (- n)) = of_int (- n)" using pos[of "- n"] assms by simp
    then show ?thesis by (simp add: rnd_minus)
  qed
qed

lemma rnd_err:
  assumes "0 < q"
  shows "\<bar>rnd p q - q\<bar> \<le> q / 2 ^ p"
proof -
  define k where "k = expo q - (int p - 1)"
  define s :: real where "s = 2 powi k"
  have s: "0 < s" by (simp add: s_def)
  have "\<bar>of_int (rne (q / s)) - q / s\<bar> \<le> 1/2" by (rule rne_err)
  then have "\<bar>of_int (rne (q / s)) - q / s\<bar> * s \<le> 1/2 * s"
    using s by (simp only: mult_le_cancel_right_pos)
  moreover have "\<bar>of_int (rne (q / s)) - q / s\<bar> * s = \<bar>of_int (rne (q / s)) * s - q\<bar>"
  proof -
    have "\<bar>of_int (rne (q / s)) - q / s\<bar> * s = \<bar>(of_int (rne (q / s)) - q / s) * s\<bar>"
      using s by (simp add: abs_mult)
    also have "(of_int (rne (q / s)) - q / s) * s = of_int (rne (q / s)) * s - q"
      using s by (simp add: left_diff_distrib)
    finally show ?thesis .
  qed
  ultimately have 1: "\<bar>rnd p q - q\<bar> \<le> s / 2"
    unfolding rnd_pos[OF assms] k_def[symmetric] s_def[symmetric] by simp
  have "s = 2 powi (expo q) * 2 / 2 ^ p"
    unfolding s_def k_def by (simp add: power_int_diff power_int_add)
  moreover have "2 powi (expo q) \<le> q" using expo_bounds[OF assms] by simp
  ultimately have "s / 2 \<le> q / 2 ^ p" by (simp add: divide_right_mono)
  with 1 show ?thesis by linarith
qed

lemma floor_rnd_divide:
  assumes "0 \<le> a" "a < 2 ^ p" "0 < b"
  shows "\<lfloor>rnd p (of_int a / of_int b)\<rfloor> = a div b"
proof (cases "a = 0")
  case True then show ?thesis by simp
next
  case False
  define q :: real where "q = of_int a / of_int b"
  define n where "n = a div b"
  have apos: "0 < a" using False assms(1) by simp
  have q: "0 < q" using apos assms(3) by (simp add: q_def)
  have ra: "real_of_int a < 2 ^ p" using assms(2) by (rule of_int_less_power2)
  have qa: "q \<le> of_int a"
  proof -
    have "1 \<le> real_of_int b" using assms(3) by simp
    then have "real_of_int a / real_of_int b \<le> real_of_int a / 1"
      using apos by (intro divide_left_mono) simp_all
    then show ?thesis by (simp add: q_def)
  qed
  have "n = \<lfloor>q\<rfloor>"
    unfolding n_def q_def by (simp only: floor_divide_of_int_eq)
  then have nq: "of_int n \<le> q" by simp
  have lo: "of_int n \<le> rnd p q"
    by (rule rnd_ge_int[OF q _ nq]) (use qa ra in linarith)
  have "a < a div b * b + b"
    using pos_mod_bound[OF assms(3), of a] div_mult_mod_eq[of a b] by linarith
  then have "a + 1 \<le> (n + 1) * b" by (simp add: n_def distrib_right)
  then have "real_of_int (a + 1) \<le> real_of_int ((n + 1) * b)" by (simp only: of_int_le_iff)
  then have "real_of_int a + 1 \<le> (of_int n + 1) * of_int b" by simp
  then have up: "q + 1 / of_int b \<le> of_int n + 1"
    unfolding q_def using assms(3) by (simp add: field_simps)
  have "q / 2 ^ p < 1 / of_int b"
  proof -
    have "q / 2 ^ p = (of_int a / 2 ^ p) / of_int b" by (simp add: q_def)
    also have "\<dots> < 1 / of_int b"
      using ra assms(3) by (intro divide_strict_right_mono) simp_all
    finally show ?thesis .
  qed
  with rnd_err[OF q, of p] up have hi: "rnd p q < of_int n + 1" by linarith
  from lo hi have "\<lfloor>rnd p q\<rfloor> = n" by (simp add: floor_unique)
  then show ?thesis by (simp add: q_def n_def)
qed


section \<open>The loops of the two passes\<close>

lemma gridN_step:
  assumes "0 < ss" "x + w \<le> limX"
  shows "gridN limX w x ss = 1 + gridN limX w (x + ss) ss"
proof (cases "x + ss + w \<le> limX")
  case True
  have e: "limX - w - x = (limX - w - (x + ss)) + ss" by simp
  have "(limX - w - x) div ss = (limX - w - (x + ss)) div ss + 1"
    by (subst e, subst div_add_self2) (use assms(1) in simp_all)
  then show ?thesis using True assms(2) by (simp add: gridN_def)
next
  case False
  then have "(limX - w - x) div ss = 0"
    using assms by (intro div_pos_pos_trivial) simp_all
  then show ?thesis using False assms(2) by (simp add: gridN_def)
qed

lemma gridN_nonneg: "0 < ss \<Longrightarrow> 0 \<le> gridN limX w x ss"
  by (simp add: gridN_def pos_imp_zdiv_nonneg_iff)

lemma colLoop_result:
  assumes "0 < ssw"
  shows "\<exists>ws'. colLoop limX ssw y w h si x ws = Some (ws @ ws')
           \<and> int (length ws') = gridN limX w x ssw
           \<and> (\<forall>win\<in>set ws'. x \<le> bb_x win \<and> bb_x win + w \<le> limX \<and> bb_y win = y
                  \<and> bb_w win = w \<and> bb_h win = h \<and> bb_scaleIndex win = si)"
proof (induction n \<equiv> "nat (limX - w - x + 1)" arbitrary: x ws rule: less_induct)
  case less
  show ?case
  proof (cases "x + w \<le> limX")
    case False
    then show ?thesis by (subst colLoop.simps) (simp add: gridN_def)
  next
    case True
    define win where "win = \<lparr>bb_x = x, bb_y = y, bb_w = w, bb_h = h, bb_scaleIndex = si\<rparr>"
    have m: "nat (limX - w - (x + ssw) + 1) < nat (limX - w - x + 1)"
      using True assms by linarith
    from less[OF m, of "ws @ [win]"] obtain ws' where
      r: "colLoop limX ssw y w h si (x + ssw) (ws @ [win]) = Some ((ws @ [win]) @ ws')"
      and l: "int (length ws') = gridN limX w (x + ssw) ssw"
      and p: "\<forall>v\<in>set ws'. x + ssw \<le> bb_x v \<and> bb_x v + w \<le> limX \<and> bb_y v = y
                  \<and> bb_w v = w \<and> bb_h v = h \<and> bb_scaleIndex v = si"
      by blast
    have 1: "colLoop limX ssw y w h si x ws = Some (ws @ (win # ws'))"
      by (subst colLoop.simps) (use True r in \<open>simp add: win_def\<close>)
    have 2: "int (length (win # ws')) = gridN limX w x ssw"
      using l gridN_step[OF assms True] by simp
    have 3: "\<forall>v\<in>set (win # ws'). x \<le> bb_x v \<and> bb_x v + w \<le> limX \<and> bb_y v = y
                  \<and> bb_w v = w \<and> bb_h v = h \<and> bb_scaleIndex v = si"
      using p True assms by (auto simp: win_def)
    from 1 2 3 show ?thesis by blast
  qed
qed

lemma rowLoop_result:
  assumes "0 < ssw" "0 < ssh"
  shows "\<exists>ws'. rowLoop limX limY ssw ssh x0 w h si y ws = Some (ws @ ws')
           \<and> int (length ws') = gridN limY h y ssh * gridN limX w x0 ssw
           \<and> (\<forall>win\<in>set ws'. inGrid x0 y limX limY w h si win)"
proof (induction n \<equiv> "nat (limY - h - y + 1)" arbitrary: y ws rule: less_induct)
  case less
  show ?case
  proof (cases "y + h \<le> limY")
    case False
    then show ?thesis by (subst rowLoop.simps) (simp add: gridN_def)
  next
    case True
    from colLoop_result[OF assms(1), of limX y w h si x0 ws] obtain row where
      c: "colLoop limX ssw y w h si x0 ws = Some (ws @ row)"
      and cl: "int (length row) = gridN limX w x0 ssw"
      and cp: "\<forall>v\<in>set row. x0 \<le> bb_x v \<and> bb_x v + w \<le> limX \<and> bb_y v = y
                  \<and> bb_w v = w \<and> bb_h v = h \<and> bb_scaleIndex v = si"
      by blast
    have m: "nat (limY - h - (y + ssh) + 1) < nat (limY - h - y + 1)"
      using True assms by linarith
    from less[OF m, of "ws @ row"] obtain ws' where
      r: "rowLoop limX limY ssw ssh x0 w h si (y + ssh) (ws @ row) = Some ((ws @ row) @ ws')"
      and l: "int (length ws') = gridN limY h (y + ssh) ssh * gridN limX w x0 ssw"
      and p: "\<forall>v\<in>set ws'. inGrid x0 (y + ssh) limX limY w h si v"
      by blast
    have 1: "rowLoop limX limY ssw ssh x0 w h si y ws = Some (ws @ (row @ ws'))"
      by (subst rowLoop.simps) (use True c r in simp)
    have 2: "int (length (row @ ws')) = gridN limY h y ssh * gridN limX w x0 ssw"
      using l cl gridN_step[OF assms(2) True] by (simp add: distrib_right)
    have 3: "\<forall>v\<in>set (row @ ws'). inGrid x0 y limX limY w h si v"
      using p cp True assms by (auto simp: inGrid_def)
    from 1 2 3 show ?thesis by blast
  qed
qed

lemma f2i_of_int [simp]: "f2i (of_int n) = n"
  by (simp add: f2i_def)

lemma stepSize_pos: "0 < stepSize s w"
proof (cases "useShift s")
  case True
  have "(1::real) \<le> max 1 (fl32 (fl32 (of_int w) * shift s))" by simp
  then have "1 \<le> \<lfloor>max 1 (fl32 (fl32 (of_int w) * shift s))\<rfloor>" by (simp only: le_floor_iff)
  then show ?thesis using True by (simp add: stepSize_def f2i_def)
next
  case False
  then show ?thesis by (simp add: stepSize_def)
qed

lemma stepSize_le:
  assumes "useShift s \<longrightarrow> shift s \<le> 1" "0 \<le> w" "w < 2 ^ 24"
  shows "stepSize s w \<le> max 1 w"
proof (cases "useShift s")
  case False
  then show ?thesis by (simp add: stepSize_def)
next
  case True
  with assms(1) have sh: "shift s \<le> 1" by simp
  have ew: "fl32 (of_int w) = of_int w"
    unfolding fl32_def by (rule rnd_int_exact) (use assms in simp)
  define v where "v = fl32 (of_int w * shift s)"
  have "v \<le> of_int (max 1 w)"
  proof (cases "0 < of_int w * shift s")
    case False
    then have "v \<le> 0" unfolding v_def fl32_def by (intro rnd_nonpos) simp
    then show ?thesis by simp
  next
    case pos: True
    have "of_int w * shift s \<le> of_int w * 1"
      using sh assms(2) by (intro mult_left_mono) simp_all
    then have "of_int w * shift s \<le> of_int w" by simp
    then have "v \<le> of_int w"
      unfolding v_def fl32_def using pos assms(3) by (intro rnd_le_int) simp_all
    then show ?thesis by simp
  qed
  then have "max 1 v \<le> of_int (max 1 w)" by simp
  then have "\<lfloor>max 1 v\<rfloor> \<le> max 1 w" by (simp only: floor_le_iff)
  then show ?thesis using True by (simp add: stepSize_def f2i_def ew v_def)
qed

lemma genLoop_result:
  "\<exists>ws'. genLoop s X Y W H scs si ws = Some (ws @ ws')
     \<and> int (length ws') = sum_list (map (gridSize s X Y W H) scs)
     \<and> (\<forall>win\<in>set ws'. X \<le> bb_x win \<and> bb_x win + bb_w win \<le> X + W
              \<and> Y \<le> bb_y win \<and> bb_y win + bb_h win \<le> Y + H
              \<and> (bb_w win, bb_h win) \<in> set scs
              \<and> si \<le> bb_scaleIndex win \<and> bb_scaleIndex win < si + int (length scs))"
proof (induction scs arbitrary: si ws)
  case Nil
  then show ?case by simp
next
  case (Cons sz scs)
  obtain w h where sz: "sz = (w, h)" by (cases sz)
  from rowLoop_result[OF stepSize_pos stepSize_pos, of "X + W" "Y + H" s w s h X w h si Y ws]
  obtain rows where
    r: "rowLoop (X + W) (Y + H) (stepSize s w) (stepSize s h) X w h si Y ws = Some (ws @ rows)"
    and rl: "int (length rows) = gridSize s X Y W H sz"
    and rp: "\<forall>win\<in>set rows. inGrid X Y (X + W) (Y + H) w h si win"
    unfolding gridSize_def sz by auto
  from Cons.IH[of "si + 1" "ws @ rows"] obtain ws' where
    g: "genLoop s X Y W H scs (si + 1) (ws @ rows) = Some ((ws @ rows) @ ws')"
    and gl: "int (length ws') = sum_list (map (gridSize s X Y W H) scs)"
    and gp: "\<forall>win\<in>set ws'. X \<le> bb_x win \<and> bb_x win + bb_w win \<le> X + W
              \<and> Y \<le> bb_y win \<and> bb_y win + bb_h win \<le> Y + H
              \<and> (bb_w win, bb_h win) \<in> set scs
              \<and> si + 1 \<le> bb_scaleIndex win \<and> bb_scaleIndex win < si + 1 + int (length scs)"
    by blast
  have 1: "genLoop s X Y W H (sz # scs) si ws = Some (ws @ (rows @ ws'))"
    using r g by (simp add: sz)
  have 2: "int (length (rows @ ws')) = sum_list (map (gridSize s X Y W H) (sz # scs))"
    using rl gl by simp
  have 3: "\<forall>win\<in>set (rows @ ws'). X \<le> bb_x win \<and> bb_x win + bb_w win \<le> X + W
              \<and> Y \<le> bb_y win \<and> bb_y win + bb_h win \<le> Y + H
              \<and> (bb_w win, bb_h win) \<in> set (sz # scs)
              \<and> si \<le> bb_scaleIndex win \<and> bb_scaleIndex win < si + int (length (sz # scs))"
    using rp gp by (auto simp: inGrid_def sz)
  from 1 2 3 show ?case by blast
qed

lemma countLoop_eq:
  "countLoop s sW sH is (scs, numW) =
     (scs @ accScales s sW sH is, foldl (countStep s sW sH) numW (accScales s sW sH is))"
  by (induction "is" arbitrary: scs numW)
     (simp_all add: accScales_def accepted_def countStep_def Let_def)

lemma accScales_bounds:
  "(w, h) \<in> set (accScales s sW sH is) \<Longrightarrow>
     minSize s \<le> w \<and> w \<le> sW \<and> minSize s \<le> h \<and> h \<le> sH"
  by (auto simp: accScales_def accepted_def)

lemma fl32_of_int: "\<bar>n\<bar> < 2 ^ 24 \<Longrightarrow> fl32 (of_int n) = of_int n"
  unfolding fl32_def by (rule rnd_int_exact)

lemma gridCount_exact:
  assumes "w \<le> sW" "0 < ss" "sW - w + ss < 2 ^ 24"
  shows "gridCount sW w ss = of_int (gridN (1 + sW) w 1 ss)"
proof -
  define a where "a = sW - w + ss"
  have a: "0 \<le> a" "a < 2 ^ 24" "ss \<le> a" using assms by (simp_all add: a_def)
  have "wrap32 (sW - w) = sW - w"
    by (rule wrap32_id) (use assms in \<open>simp add: int32_def\<close>)
  moreover have "wrap32 a = a"
    by (rule wrap32_id) (use a in \<open>simp add: int32_def\<close>)
  ultimately have wa: "wrap32 (wrap32 (sW - w) + ss) = a"
    by (simp add: a_def)
  have ea: "fl32 (of_int a) = of_int a" by (rule fl32_of_int) (use a in simp)
  have es: "fl32 (of_int ss) = of_int ss" by (rule fl32_of_int) (use a assms(2) in simp)
  have fd: "\<lfloor>fl32 (of_int a / of_int ss)\<rfloor> = a div ss"
    unfolding fl32_def by (rule floor_rnd_divide) (use a assms(2) in simp_all)
  have "a div ss = (sW - w) div ss + 1"
    unfolding a_def using assms(2) by (subst div_add_self2) simp_all
  then have "a div ss = gridN (1 + sW) w 1 ss"
    using assms(1) by (simp add: gridN_def)
  then show ?thesis
    by (simp add: gridCount_def wa ea es fd)
qed

lemma gridSize_nonneg: "0 \<le> gridSize s X Y W H sz"
  unfolding gridSize_def by (intro mult_nonneg_nonneg gridN_nonneg stepSize_pos)

lemma countStep_exact:
  assumes "fst sz \<le> sW" "sW - fst sz + stepSize s (fst sz) < 2 ^ 24"
    and "snd sz \<le> sH" "sH - snd sz + stepSize s (snd sz) < 2 ^ 24"
    and "0 \<le> numW" "numW + gridSize s 1 1 sW sH sz < 2 ^ 24"
  shows "countStep s sW sH numW sz = numW + gridSize s 1 1 sW sH sz"
proof -
  define nx where "nx = gridN (1 + sW) (fst sz) 1 (stepSize s (fst sz))"
  define ny where "ny = gridN (1 + sH) (snd sz) 1 (stepSize s (snd sz))"
  have g: "gridSize s 1 1 sW sH sz = ny * nx" by (simp add: gridSize_def nx_def ny_def)
  have g0: "0 \<le> ny * nx" using gridSize_nonneg[of s 1 1 sW sH sz] by (simp add: g)
  have cx: "gridCount sW (fst sz) (stepSize s (fst sz)) = of_int nx"
    unfolding nx_def by (rule gridCount_exact[OF assms(1) stepSize_pos assms(2)])
  have cy: "gridCount sH (snd sz) (stepSize s (snd sz)) = of_int ny"
    unfolding ny_def by (rule gridCount_exact[OF assms(3) stepSize_pos assms(4)])
  have p: "fl32 (of_int nx * of_int ny) = of_int (ny * nx)"
  proof -
    have "fl32 (of_int (ny * nx)) = of_int (ny * nx)"
      by (rule fl32_of_int) (use g0 assms(5,6) g in linarith)
    then show ?thesis by (simp add: mult.commute)
  qed
  have n: "fl32 (of_int numW) = of_int numW"
    by (rule fl32_of_int) (use g0 assms(5,6) g in linarith)
  have t: "fl32 (of_int numW + of_int (ny * nx)) = of_int (numW + ny * nx)"
  proof -
    have "fl32 (of_int (numW + ny * nx)) = of_int (numW + ny * nx)"
      by (rule fl32_of_int) (use g0 assms(5,6) g in linarith)
    then show ?thesis by simp
  qed
  show ?thesis
    by (simp only: countStep_def cx cy p n t g f2i_of_int)
qed

lemma foldl_countStep_exact:
  assumes "\<forall>sz\<in>set scs. fst sz \<le> sW \<and> sW - fst sz + stepSize s (fst sz) < 2 ^ 24
             \<and> snd sz \<le> sH \<and> sH - snd sz + stepSize s (snd sz) < 2 ^ 24"
    and "0 \<le> numW" "numW + sum_list (map (gridSize s 1 1 sW sH) scs) < 2 ^ 24"
  shows "foldl (countStep s sW sH) numW scs = numW + sum_list (map (gridSize s 1 1 sW sH) scs)"
  using assms
proof (induction scs arbitrary: numW)
  case Nil
  then show ?case by simp
next
  case (Cons sz scs)
  have rest: "0 \<le> sum_list (map (gridSize s 1 1 sW sH) scs)"
    by (rule sum_list_nonneg) (auto simp: gridSize_nonneg)
  have st: "countStep s sW sH numW sz = numW + gridSize s 1 1 sW sH sz"
    by (rule countStep_exact) (use Cons.prems rest in auto)
  have "foldl (countStep s sW sH) (numW + gridSize s 1 1 sW sH sz) scs
          = numW + gridSize s 1 1 sW sH sz + sum_list (map (gridSize s 1 1 sW sH) scs)"
    by (rule Cons.IH) (use Cons.prems gridSize_nonneg[of s 1 1 sW sH sz] in auto)
  then show ?case by (simp add: st)
qed

lemma accScales_exact:
  assumes "floatExact s" "sz \<in> set (accScales s (imgWidth s - 1) (imgHeight s - 1) is)"
  shows "fst sz \<le> imgWidth s - 1 \<and> imgWidth s - 1 - fst sz + stepSize s (fst sz) < 2 ^ 24
       \<and> snd sz \<le> imgHeight s - 1 \<and> imgHeight s - 1 - snd sz + stepSize s (snd sz) < 2 ^ 24"
proof -
  obtain w h where sz: "sz = (w, h)" by (cases sz)
  from accScales_bounds[OF assms(2)[unfolded sz]]
  have b: "minSize s \<le> w" "w \<le> imgWidth s - 1" "minSize s \<le> h" "h \<le> imgHeight s - 1"
    by auto
  from assms(1) have f: "imgWidth s < 2 ^ 24" "imgHeight s < 2 ^ 24" "0 \<le> minSize s"
    "useShift s \<longrightarrow> shift s \<le> 1" by (auto simp: floatExact_def)
  have "stepSize s w \<le> max 1 w" by (rule stepSize_le) (use b f in auto)
  moreover have "stepSize s h \<le> max 1 h" by (rule stepSize_le) (use b f in auto)
  ultimately show ?thesis using b f by (auto simp: sz)
qed


lemma genPass_result:
  "\<exists>ws. genPass s scs = Some ws
     \<and> int (length ws) = sum_list (map (gridSize s 1 1 (imgWidth s - 1) (imgHeight s - 1)) scs)
     \<and> (\<forall>win\<in>set ws. 1 \<le> bb_x win \<and> 1 \<le> bb_y win
              \<and> bb_x win + bb_w win \<le> imgWidth s \<and> bb_y win + bb_h win \<le> imgHeight s)"
proof -
  from genLoop_result[of s 1 1 "imgWidth s - 1" "imgHeight s - 1" scs 0 "[]"]
  obtain ws where "genPass s scs = Some ws"
    "int (length ws) = sum_list (map (gridSize s 1 1 (imgWidth s - 1) (imgHeight s - 1)) scs)"
    "\<forall>win\<in>set ws. 1 \<le> bb_x win \<and> bb_x win + bb_w win \<le> 1 + (imgWidth s - 1)
        \<and> 1 \<le> bb_y win \<and> bb_y win + bb_h win \<le> 1 + (imgHeight s - 1)"
    by (auto simp: genPass_def)
  then show ?thesis by auto
qed

lemma accScales_none: "sW < minSize s \<Longrightarrow> accScales s sW sH is = []"
  by (auto simp: accScales_def accepted_def filter_empty_conv)

lemma count_generated:
  assumes "floatExact s"
  shows "\<exists>ws. genPass s (fst (countPass s)) = Some ws
           \<and> (length ws < 2 ^ 24 \<longrightarrow> snd (countPass s) = int (length ws))"
proof -
  define sW where "sW = imgWidth s - 1"
  define sH where "sH = imgHeight s - 1"
  define scs where "scs = accScales s sW sH [minScale s..maxScale s]"
  from assms have "int32 (imgWidth s - 1)" "int32 (imgHeight s - 1)"
    by (simp_all add: floatExact_def int32_def)
  then have wr: "wrap32 (imgWidth s - 1) = sW" "wrap32 (imgHeight s - 1) = sH"
    by (simp_all add: wrap32_id sW_def sH_def)
  have cp: "countPass s = (scs, foldl (countStep s sW sH) 0 scs)"
    by (simp add: countPass_def countLoop_eq scs_def wr)
  from genLoop_result[of s 1 1 sW sH scs 0 "[]"] obtain ws where
    g: "genPass s scs = Some ws"
    and l: "int (length ws) = sum_list (map (gridSize s 1 1 sW sH) scs)"
    by (auto simp: genPass_def sW_def sH_def)
  have "snd (countPass s) = int (length ws)" if "length ws < 2 ^ 24"
  proof -
    have "foldl (countStep s sW sH) 0 scs = 0 + sum_list (map (gridSize s 1 1 sW sH) scs)"
    proof (rule foldl_countStep_exact)
      show "\<forall>sz\<in>set scs. fst sz \<le> sW \<and> sW - fst sz + stepSize s (fst sz) < 2 ^ 24
             \<and> snd sz \<le> sH \<and> sH - snd sz + stepSize s (snd sz) < 2 ^ 24"
        using accScales_exact[OF assms] unfolding scs_def sW_def sH_def by blast
      show "0 + sum_list (map (gridSize s 1 1 sW sH) scs) < 2 ^ 24"
        using that l by simp
    qed simp
    then show ?thesis by (simp add: cp l)
  qed
  with g show ?thesis by (simp add: cp)
qed

lemma initWindowsAndScales_assertion:
  assumes "floatExact s" "genPass s (fst (countPass s)) = Some ws" "length ws < 2 ^ 24"
  shows "initWindowsAndScales s \<noteq> Some (Inl AssertionFailed)"
proof -
  from count_generated[OF assms(1)] assms(2,3)
  have e: "snd (countPass s) = int (length ws)" by auto
  obtain scs numW where c: "countPass s = (scs, numW)" by (cases "countPass s")
  with e assms(2) show ?thesis
    by (simp add: initWindowsAndScales_def Let_def)
qed


section \<open>Evaluating the arithmetic\<close>

lemmas fl_eval = fl32_def fl64_def rnd_def expo_def rne_def ilog2.simps Let_def f2i_def
  power_int_minus_divide

lemma shift_default: "fl32 (1/10) = 13421773 / 134217728"
  by (simp add: fl_eval)

lemma libm_pow_m1: "libm_pow (- 1) = 7505999378950827 / 9007199254740992"
  by (simp add: libm_pow_def fl_eval)

lemma libm_pow_0: "libm_pow 0 = 1"
  by (simp add: libm_pow_def fl_eval)

lemma libm_pow_1: "libm_pow 1 = 5404319552844595 / 4503599627370496"
  by (simp add: libm_pow_def fl_eval)

lemma scaled_25_m1: "scaled 25 (- 1) = 20"
  by (simp add: scaled_def libm_pow_m1) (simp add: fl_eval)

lemma scaled_25_0: "scaled 25 0 = 25"
  by (simp add: scaled_def libm_pow_0) (simp add: fl_eval)

lemma scaled_25_1: "scaled 25 1 = 30"
  by (simp add: scaled_def libm_pow_1) (simp add: fl_eval)

lemma stepSize_demo_25: "stepSize demo 25 = 2"
  by (simp add: stepSize_def demo_def CuDetectorCascade_def shift_default) (simp add: fl_eval)

lemma stepSize_demo_30: "stepSize demo 30 = 3"
  by (simp add: stepSize_def demo_def CuDetectorCascade_def shift_default) (simp add: fl_eval)

lemma gridCount_30_25_2: "gridCount 30 25 2 = 3"
  by (simp add: gridCount_def wrap32_def) (simp add: fl_eval)

lemma gridCount_30_30_3: "gridCount 30 30 3 = 1"
  by (simp add: gridCount_def wrap32_def) (simp add: fl_eval)

lemma demo_fields:
  "objWidth demo = 25" "objHeight demo = 25" "imgWidth demo = 31" "imgHeight demo = 31"
  "imgWidthStep demo = 31" "minScale demo = - 1" "maxScale demo = 1" "minSize demo = 25"
  "useShift demo" "shift demo = fl32 (1/10)" "numTrees demo = 13" "numFeatures demo = 10"
  "\<not> initialised demo" "trace demo = []"
  by (simp_all add: demo_def CuDetectorCascade_def)

lemma count_9: "f2i (fl32 (fl32 0 + fl32 9)) = 9"
  by (simp add: fl_eval)

lemma count_10: "f2i (fl32 (fl32 9 + fl32 1)) = 10"
  by (simp add: fl_eval)

lemma demo_countPass: "countPass demo = ([(25, 25), (30, 30)], 10)"
  by (simp add: countPass_def upto.simps demo_fields Let_def scaled_25_m1 scaled_25_0
      scaled_25_1 stepSize_demo_25 stepSize_demo_30 gridCount_30_25_2 gridCount_30_30_3
      count_9 count_10 wrap32_def)

lemma demo_genPass: "genPass demo [(25, 25), (30, 30)] = Some demoWindows"
  by (simp add: genPass_def demo_fields stepSize_demo_25 stepSize_demo_30 rowLoop.simps
      colLoop.simps demoWindows_def)

lemma scaled_24_m1: "scaled 24 (- 1) = 20"
  by (simp add: scaled_def libm_pow_m1) (simp add: fl_eval)

lemma scaled_24_0: "scaled 24 0 = 24"
  by (simp add: scaled_def libm_pow_0) (simp add: fl_eval)

lemma scaled_24_1: "scaled 24 1 = 28"
  by (simp add: scaled_def libm_pow_1) (simp add: fl_eval)

lemma demo_initWindowsAndScales:
  "initWindowsAndScales demo =
     Some (Inr (calls [CudaMalloc 200, CudaMemcpy 200]
                  (demo\<lparr>scales := Arr [(25, 25), (30, 30)], numWindows := 10, numScales := 2,
                        windows := Arr demoWindows, windows_d := Arr demoWindows\<rparr>)))"
  by (simp add: initWindowsAndScales_def demo_countPass demo_genPass demo_fields
        wrap32_def int32_def)
     (simp add: demoWindows_def)

lemma demo_init: "init demo = Some (Inr demoInit)"
  by (simp only: init_def if_cancel Let_def demo_initWindowsAndScales)
     (simp add: initWindowOffsets_def calls_def propagateMembers_def windowOffset_def
        sub2idx_def demoInit_def demoWindows_def demoOffsets_def demo_def
        CuDetectorCascade_def upt_rec wrap32_def Let_def)

lemma demoInit_fields:
  "initialised demoInit" "windows demoInit = Arr demoWindows" "numWindows demoInit = 10"
  "numFeatures demoInit = 10" "numTrees demoInit = 13" "imgWidthStep demoInit = 31"
  "windowOffsets demoInit = Arr demoOffsets"
  by (simp_all add: demoInit_def demo_def CuDetectorCascade_def)

lemma example5_fields:
  "objWidth example5 = 24" "objHeight example5 = 24" "imgWidth example5 = 100"
  "imgHeight example5 = 100" "imgWidthStep example5 = 100" "minScale example5 = - 1"
  "maxScale example5 = 1" "minSize example5 = 25" "useShift example5"
  "shift example5 = fl32 (1/10)"
  by (simp_all add: example5_def CuDetectorCascade_def)

lemma stepSize_example5_28: "stepSize example5 28 = 2"
  by (simp add: stepSize_def example5_fields shift_default) (simp add: fl_eval)

lemma gridCount_99_28_2: "gridCount 99 28 2 = 36"
  by (simp add: gridCount_def wrap32_def) (simp add: fl_eval)

lemma count_1296: "f2i (fl32 (fl32 0 + fl32 1296)) = 1296"
  by (simp add: fl_eval)

lemma example5_countPass: "countPass example5 = ([(28, 28)], 1296)"
  by (simp add: countPass_def upto.simps example5_fields Let_def scaled_24_m1 scaled_24_0
      scaled_24_1 stepSize_example5_28 gridCount_99_28_2 count_1296 wrap32_def)

lemma example5_scales: "scalesOf (initWindowsAndScales example5) = Some (Arr [(28, 28)], 1)"
proof -
  from genPass_result[of example5 "[(28, 28)]"] obtain ws where
    g: "genPass example5 [(28, 28)] = Some ws" and
    l: "int (length ws) = sum_list (map (gridSize example5 1 1 99 99) [(28, 28)])"
    by (auto simp: example5_fields)
  have "int (length ws) = 1296"
    unfolding l by (simp add: gridSize_def gridN_def stepSize_example5_28)
  then show ?thesis
    by (simp add: scalesOf_def initWindowsAndScales_def example5_countPass g example5_fields
        calls_def wrap32_def int32_def)
qed

lemma big_fields:
  "objWidth big = 25" "objHeight big = 25" "imgWidth big = 4122" "imgHeight big = 4122"
  "imgWidthStep big = 4122" "minScale big = 0" "maxScale big = 0" "minSize big = 25"
  "\<not> useShift big"
  by (simp_all add: big_def CuDetectorCascade_def)

lemma stepSize_big: "stepSize big w = 1"
  by (simp add: stepSize_def big_fields)

lemma gridCount_4121_25_1: "gridCount 4121 25 1 = 4097"
  by (simp add: gridCount_def wrap32_def) (simp add: fl_eval)

text \<open>The product \<open>4097 * 4097 = 16785409\<close> is odd and above \<open>2 ^ 24\<close>: it is rounded.\<close>

lemma count_16785409: "f2i (fl32 (fl32 0 + fl32 16785409)) = 16785408"
  by (simp add: fl_eval)

lemma big_countPass: "countPass big = ([(25, 25)], 16785408)"
  by (simp add: countPass_def upto.simps big_fields Let_def scaled_25_0 stepSize_big
      gridCount_4121_25_1 count_16785409 wrap32_def)

lemma big_generated: "map_option length (genPass big [(25, 25)]) = Some 16785409"
proof -
  from genPass_result[of big "[(25, 25)]"] obtain ws where
    g: "genPass big [(25, 25)] = Some ws" and
    l: "int (length ws) = sum_list (map (gridSize big 1 1 4121 4121) [(25, 25)])"
    by (auto simp: big_fields)
  have "int (length ws) = 16785409"
    unfolding l by (simp add: gridSize_def gridN_def stepSize_big)
  then have "length ws = 16785409" by linarith
  with g show ?thesis by simp
qed

lemma big_initWindowsAndScales: "initWindowsAndScales big = Some (Inl AssertionFailed)"
proof -
  from big_generated obtain ws where
    g: "genPass big [(25, 25)] = Some ws" and l: "length ws = 16785409"
    by (auto simp: map_option_case split: option.splits)
  show ?thesis
    by (simp add: initWindowsAndScales_def big_countPass g l big_fields wrap32_def int32_def)
qed











lemma detect_calls:
  assumes "initialised s"
  shows "trace (detect img s) =
           trace s @ [DetectionResult_reset, GpuMat_upload img, CreateIndexArray (numWindows s),
                      CuVarianceFilter_filter img (numWindows s),
                      Clustering_clusterConfidentIndices]"
    and "filter classifierTest (trace (detect img s)) = filter classifierTest (trace s)"
    and "containsValidData (detectionResult (detect img s))"
  using assms by (simp_all add: detect_def calls_def classifierTest_def)


section \<open>Claims\<close>

text \<open>
  Claim C1. While the cascade is initialised, \<^verbatim>\<open>detect\<close> is claimed to run the ensemble
  classifier's and then the nearest neighbour classifier's test on each window that
  survived the variance filter, before it clusters and marks the result valid. On the
  initialised cascade \<open>demoInit\<close> (ten windows) the calls made are the reset, the upload,
  the index array, the variance filter and the clustering, and then the result is marked
  valid: no window is tested by either classifier. Lemma \<open>detect_calls\<close> shows the same
  five calls for every initialised cascade and every frame.
\<close>

theorem detect_skips_classifiers:
  "init demo = Some (Inr demoInit)
   \<and> detect [] demoInit =
       (calls [DetectionResult_reset, GpuMat_upload [], CreateIndexArray 10,
               CuVarianceFilter_filter [] 10, Clustering_clusterConfidentIndices] demoInit)
         \<lparr>detectionResult := \<lparr>containsValidData = True\<rparr>\<rparr>
   \<and> filter classifierTest (trace (detect [] demoInit)) = []"
  by (simp add: demo_init)
     (simp add: detect_def calls_def demoInit_def demo_def CuDetectorCascade_def
        classifierTest_def DetectionResult_new_def)

text \<open>
  Claim C2. \<^verbatim>\<open>init\<close> is claimed to fail, before any allocation, when one of the five
  dimensions is still \<open>-1\<close>. On the cascade as constructed, with all five unset, \<^verbatim>\<open>init\<close>
  runs to its end: it allocates (the trace holds the \<^verbatim>\<open>cudaMalloc\<close>), builds an empty
  grid and sets \<^verbatim>\<open>initialised\<close>.
\<close>

theorem init_with_unset_dimensions:
  "unset (CuDetectorCascade 0 0) \<and> init (CuDetectorCascade 0 0) = Some (Inr defaultInit)
   \<and> initialised defaultInit \<and> CudaMalloc 0 \<in> set (trace defaultInit)"
proof -
  have f: "imgWidth (CuDetectorCascade 0 0) = - 1" "imgHeight (CuDetectorCascade 0 0) = - 1"
    "minSize (CuDetectorCascade 0 0) = 25" "minScale (CuDetectorCascade 0 0) = - 10"
    "maxScale (CuDetectorCascade 0 0) = 10"
    by (simp_all add: CuDetectorCascade_def)
  have c: "countPass (CuDetectorCascade 0 0) = ([], 0)"
    by (simp add: countPass_def countLoop_eq accScales_none f wrap32_def)
  have g: "genPass (CuDetectorCascade 0 0) [] = Some []"
    by (simp add: genPass_def)
  have w: "initWindowsAndScales (CuDetectorCascade 0 0) =
      Some (Inr (calls [CudaMalloc 0, CudaMemcpy 0]
        ((CuDetectorCascade 0 0)\<lparr>scales := Arr [], numWindows := 0, numScales := 0,
            windows := Arr [], windows_d := Arr []\<rparr>)))"
    by (simp add: initWindowsAndScales_def c g f wrap32_def int32_def)
  have i: "init (CuDetectorCascade 0 0) = Some (Inr defaultInit)"
    by (simp only: init_def if_cancel Let_def w)
       (simp add: initWindowOffsets_def calls_def propagateMembers_def defaultInit_def
          CuDetectorCascade_def wrap32_def Let_def)
  show ?thesis
    by (simp add: i) (simp add: unset_def defaultInit_def CuDetectorCascade_def)
qed

text \<open>
  Claim C3. The window count computed by the first pass, the sum over the accepted scales
  of \<^verbatim>\<open>floor((scanAreaW - w + ssw) / ssw) * floor((scanAreaH - h + ssh) / ssh)\<close>, is
  claimed to equal the number of window records that the second pass writes, which is
  what the function asserts in its last line. In \<open>big\<close> (all dimensions set) each factor
  is 4097, the product is formed in single precision and the first pass counts 16785408
  windows; the second pass writes \<open>4097 * 4097 = 16785409\<close> records, one more than the
  array was allocated for, and the assertion fails. Lemma \<open>count_generated\<close> shows that
  the two numbers agree as long as there are fewer than \<open>2 ^ 24\<close> windows.
\<close>

theorem count_differs_from_generated:
  "\<not> unset big
   \<and> snd (countPass big) = 16785408
   \<and> map_option length (genPass big (fst (countPass big))) = Some 16785409
   \<and> initWindowsAndScales big = Some (Inl AssertionFailed)"
  by (simp add: big_countPass big_generated big_initWindowsAndScales)
     (simp add: unset_def big_fields)




text \<open>
  Claim C5. For the template 24 by 24, the image 100 by 100, the exponents \<open>-1\<close> to \<open>1\<close>,
  the shift 0.1 and the minimum size 25, the claim is: exponent \<open>-1\<close> gives 20 and is
  rejected, exponents 0 and 1 give 24 and 29 and are accepted, \<^verbatim>\<open>numScales\<close> is 2. The code
  gives 20, 24 and 28 (the product \<open>24 * 1.2\<close> is truncated), rejects 20 and 24, which
  are below the minimum size, accepts 28, and \<^verbatim>\<open>numScales\<close> is 1.
\<close>

theorem example_scales_counterexample:
  "\<not> (scaled (objWidth example5) (- 1) = 20 \<and> \<not> accepted example5 99 99 (- 1)
      \<and> scaled (objWidth example5) 0 = 24 \<and> accepted example5 99 99 0
      \<and> scaled (objWidth example5) 1 = 29 \<and> accepted example5 99 99 1
      \<and> scalesOf (initWindowsAndScales example5) = Some (Arr [(24, 24), (29, 29)], 2))"
  by (simp add: accepted_def example5_fields scaled_24_0)

theorem example_scales:
  "scaled (objWidth example5) (- 1) = 20 \<and> scaled (objHeight example5) (- 1) = 20
   \<and> \<not> accepted example5 99 99 (- 1)
   \<and> scaled (objWidth example5) 0 = 24 \<and> scaled (objHeight example5) 0 = 24
   \<and> \<not> accepted example5 99 99 0
   \<and> scaled (objWidth example5) 1 = 28 \<and> scaled (objHeight example5) 1 = 28
   \<and> accepted example5 99 99 1
   \<and> scalesOf (initWindowsAndScales example5) = Some (Arr [(28, 28)], 1)"
  by (simp add: example5_scales accepted_def example5_fields scaled_24_m1 scaled_24_0 scaled_24_1)




text \<open>
  Claim C7. \<^verbatim>\<open>detect\<close> on a cascade that is not initialised returns at once: the state,
  with the trace of calls and the validity flag, is the one before, so a flag that was
  false is false afterwards.
\<close>

theorem detect_uninitialised:
  "(\<not> initialised s \<longrightarrow> detect img s = s)
   \<and> (\<not> initialised s \<longrightarrow> \<not> containsValidData (detectionResult s) \<longrightarrow>
        \<not> containsValidData (detectionResult (detect img s)))"
  by (simp add: detect_def)

theorem detect_uninitialised_witness:
  "\<not> initialised (CuDetectorCascade 0 0)
   \<and> \<not> containsValidData (detectionResult (CuDetectorCascade 0 0))
   \<and> detect [] (CuDetectorCascade 0 0) = CuDetectorCascade 0 0
   \<and> \<not> containsValidData (detectionResult (detect [] (CuDetectorCascade 0 0)))"
proof -
  have n: "\<not> initialised (CuDetectorCascade 0 0)"
    and v: "\<not> containsValidData (detectionResult (CuDetectorCascade 0 0))"
    by (simp_all add: CuDetectorCascade_def DetectionResult_new_def)
  from detect_uninitialised[of "CuDetectorCascade 0 0" "[]"] n v
  show ?thesis by blast
qed

text \<open>
  Claim C8. \<^verbatim>\<open>release\<close> on a cascade that is not initialised changes nothing, and a second
  \<^verbatim>\<open>release\<close> after a first changes nothing more.
\<close>

theorem release_idempotent:
  "(\<not> initialised s \<longrightarrow> release s = s) \<and> release (release s) = release s"
  by (simp add: release_def calls_def)

theorem release_idempotent_witness:
  "\<not> initialised demo \<and> release demo = demo
   \<and> initialised demoInit \<and> release demoInit \<noteq> demoInit
   \<and> release (release demoInit) = release demoInit"
proof -
  have "release demoInit \<noteq> demoInit"
  proof
    assume "release demoInit = demoInit"
    then have "initialised (release demoInit) = initialised demoInit" by simp
    then show False by (simp add: release_def calls_def demoInit_fields)
  qed
  then show ?thesis
    using release_idempotent[of demo] release_idempotent[of demoInit]
    by (simp add: demo_fields demoInit_fields)
qed

text \<open>
  Claim C9. After construction the cascade is not initialised, \<^verbatim>\<open>windows_d\<close> is null, the
  five dimensions are \<open>-1\<close>, and the rest of the configuration has its defaults: shift 0.1
  (the \<^verbatim>\<open>float\<close> nearest to it), proportional shift, exponents \<open>-10\<close> to 10, minimum size
  25, 13 trees, 10 features.
\<close>

theorem constructor_state:
  "\<not> initialised (CuDetectorCascade nw ns)
   \<and> windows_d (CuDetectorCascade nw ns) = Null
   \<and> objWidth (CuDetectorCascade nw ns) = - 1
   \<and> objHeight (CuDetectorCascade nw ns) = - 1
   \<and> imgWidth (CuDetectorCascade nw ns) = - 1
   \<and> imgHeight (CuDetectorCascade nw ns) = - 1
   \<and> imgWidthStep (CuDetectorCascade nw ns) = - 1
   \<and> shift (CuDetectorCascade nw ns) = fl32 (1/10)
   \<and> \<bar>shift (CuDetectorCascade nw ns) - 1/10\<bar> < 1 / 10 ^ 8
   \<and> useShift (CuDetectorCascade nw ns)
   \<and> minScale (CuDetectorCascade nw ns) = - 10
   \<and> maxScale (CuDetectorCascade nw ns) = 10
   \<and> minSize (CuDetectorCascade nw ns) = 25
   \<and> numTrees (CuDetectorCascade nw ns) = 13
   \<and> numFeatures (CuDetectorCascade nw ns) = 10"
  by (simp add: CuDetectorCascade_def shift_default)

text \<open>
  Claim C10. \<^verbatim>\<open>release\<close> on an initialised cascade sets the template size back to \<open>-1\<close>
  and leaves the image size, the stride, the exponents, the minimum size, the shift mode
  and ratio and the feature and tree counts as they were; after it, the test of \<^verbatim>\<open>init\<close>
  for unset dimensions fires, and it no longer fires once the template size is set
  again.
\<close>

theorem release_keeps_configuration:
  assumes "initialised s"
  shows "\<not> initialised (release s)
    \<and> objWidth (release s) = - 1 \<and> objHeight (release s) = - 1
    \<and> imgWidth (release s) = imgWidth s \<and> imgHeight (release s) = imgHeight s
    \<and> imgWidthStep (release s) = imgWidthStep s
    \<and> minScale (release s) = minScale s \<and> maxScale (release s) = maxScale s
    \<and> minSize (release s) = minSize s \<and> useShift (release s) = useShift s
    \<and> shift (release s) = shift s \<and> numFeatures (release s) = numFeatures s
    \<and> numTrees (release s) = numTrees s
    \<and> unset (release s)
    \<and> (\<not> unset s \<longrightarrow> w \<noteq> - 1 \<longrightarrow> h \<noteq> - 1 \<longrightarrow>
           \<not> unset ((release s)\<lparr>objWidth := w, objHeight := h\<rparr>))"
  using assms by (simp add: release_def calls_def unset_def)

theorem release_keeps_configuration_witness:
  "initialised demoInit \<and> \<not> initialised (release demoInit)
   \<and> objWidth (release demoInit) = - 1 \<and> objHeight (release demoInit) = - 1
   \<and> imgWidth (release demoInit) = 31 \<and> imgHeight (release demoInit) = 31
   \<and> imgWidthStep (release demoInit) = 31
   \<and> minScale (release demoInit) = - 1 \<and> maxScale (release demoInit) = 1
   \<and> minSize (release demoInit) = 25 \<and> useShift (release demoInit)
   \<and> shift (release demoInit) = fl32 (1/10) \<and> numFeatures (release demoInit) = 10
   \<and> numTrees (release demoInit) = 13
   \<and> unset (release demoInit) \<and> \<not> unset demoInit
   \<and> \<not> unset ((release demoInit)\<lparr>objWidth := 25, objHeight := 25\<rparr>)"
  using release_keeps_configuration[of demoInit 25 25]
  by (simp add: demoInit_def demo_def CuDetectorCascade_def unset_def)

end
